theory Spec2Isabelle
  imports Main "HOL-Library.Word"
begin

section \<open>VRRVRR: the tempo engine and key router of \<open>main.c\<close>\<close>

text \<open>
  The firmware keeps its whole state in C globals and function statics of fixed width.
  They are gathered in one record, every handler takes the record and returns the
  updated one, and the two inputs a handler reads from the hardware (the microsecond
  clock \<open>time_us_64()\<close> and the vibration switch pin) are parameters.
  A division by zero and an array index past the fourth preset are undefined in C:
  the handler then returns \<open>None\<close>.
\<close>

type_synonym u8 = "8 word"
type_synonym u16 = "16 word"
type_synonym u64 = "64 word"

subsection \<open>Constants of \<open>config.h\<close>\<close>

datatype colour = WHITE | PURPLE | RED | GREEN

definition INPUT_TIMEOUT_MS :: nat where "INPUT_TIMEOUT_MS = 2000"
definition BLINK_DURATION_MS :: nat where "BLINK_DURATION_MS = 100"
definition VIBRATION_DURATION_MS :: nat where "VIBRATION_DURATION_MS = 100"
definition NOTIF_DURATION_MS :: nat where "NOTIF_DURATION_MS = 500"

definition DEFAULT_TEMPO_PRESETS :: "u8 list" where
  "DEFAULT_TEMPO_PRESETS = [60, 90, 60, 150]"
definition DEFAULT_SUBDIV_PRESETS :: "u8 list" where
  "DEFAULT_SUBDIV_PRESETS = [1, 1, 2, 1]"
definition DEFAULT_ACCENT_PRESETS :: "u8 list" where
  "DEFAULT_ACCENT_PRESETS = [0, 0, 1, 0]"

definition MAGIC_NUMBER :: "u8 list" where
  "MAGIC_NUMBER = [0x42, 0x50, 0x4D]"
definition MAGIC_NUMBER_LENGTH :: nat where "MAGIC_NUMBER_LENGTH = 3"

text \<open>The page and sector sizes of the Pico SDK (\<open>hardware/flash.h\<close>).\<close>

definition FLASH_PAGE_SIZE :: nat where "FLASH_PAGE_SIZE = 256"
definition FLASH_SECTOR_SIZE :: nat where "FLASH_SECTOR_SIZE = 4096"

subsection \<open>The global variables\<close>

text \<open>
  A timer of the SDK is \<open>None\<close> while it is not armed. The beat timer holds the delay
  it was armed with (negative, as a 64-bit two's complement value), the +/- repeat timer
  the callback it was armed with, a one-shot alarm its delay in milliseconds.
  \<open>flash\<close> is the sector at \<open>FLASH_TARGET_OFFSET\<close>, addressed from 0.
  \<open>led\<close> holds the last arguments of \<open>rgb\<close>; \<open>pwm_wrap\<close>, \<open>pwm_level\<close> and
  \<open>pwm_enabled\<close> are the motor's PWM slice.
\<close>

datatype tempo_callback = Cb_increase_tempo | Cb_decrease_tempo

record metronome_state =
  tempo :: u8
  subdiv :: u8
  accent :: bool
  tempo_prompt :: u16
  num_taps :: u8
  ticks :: u8
  paused :: bool
  recalc_interval :: bool
  last_press :: u64
  long_pressed_release_lock :: bool
  tempo_presets :: "u8 list"
  subdiv_presets :: "u8 list"
  accent_presets :: "u8 list"
  tap_interval_avg :: u64
  last_tap :: u64
  metronome :: "u64 option"
  tempo_change :: "tempo_callback option"
  blink_alarm :: "nat option"
  vibrate_alarm :: "nat option"
  type_timeout_alarm :: "nat option"
  tap_timeout_alarm :: "nat option"
  led :: "bool \<times> bool \<times> bool"
  pwm_wrap :: nat
  pwm_level :: nat
  pwm_enabled :: bool
  flash :: "nat \<Rightarrow> u8"

text \<open>The state C gives the globals before \<open>main\<close> runs, over a given flash sector.\<close>

definition init_state :: "(nat \<Rightarrow> u8) \<Rightarrow> metronome_state" where
  "init_state fl =
     \<lparr> tempo = 0, subdiv = 1, accent = True, tempo_prompt = 0, num_taps = 0, ticks = 0,
       paused = True, recalc_interval = False, last_press = 0,
       long_pressed_release_lock = False,
       tempo_presets = DEFAULT_TEMPO_PRESETS,
       subdiv_presets = DEFAULT_SUBDIV_PRESETS,
       accent_presets = DEFAULT_ACCENT_PRESETS,
       tap_interval_avg = 0, last_tap = 0,
       metronome = None, tempo_change = None,
       blink_alarm = None, vibrate_alarm = None,
       type_timeout_alarm = None, tap_timeout_alarm = None,
       led = (False, False, False), pwm_wrap = 0, pwm_level = 0, pwm_enabled = False,
       flash = fl \<rparr>"

text \<open>A sector holding the given bytes from offset 0 on, erased (0xFF) after them.\<close>

definition flash_of :: "u8 list \<Rightarrow> nat \<Rightarrow> u8" where
  "flash_of bytes a = (if a < length bytes then bytes ! a else 0xFF)"

subsection \<open>Flash functions\<close>

text \<open>
  \<open>write_flash_presets\<close>: the page buffer starts as the signature followed by zeros,
  the loop stores the three arrays behind it, the sector is erased and the page
  programmed at its start.
\<close>

definition write_flash_presets :: "metronome_state \<Rightarrow> metronome_state" where
  "write_flash_presets s =
     (let flash_buffer0 = MAGIC_NUMBER @ replicate (FLASH_PAGE_SIZE - MAGIC_NUMBER_LENGTH) 0;
          flash_buffer = fold (\<lambda>i buf.
              buf[MAGIC_NUMBER_LENGTH + i := tempo_presets s ! i,
                  MAGIC_NUMBER_LENGTH + i + 4 := subdiv_presets s ! i,
                  MAGIC_NUMBER_LENGTH + i + 8 := accent_presets s ! i]) [0..<4] flash_buffer0
      in s\<lparr>flash := (\<lambda>a. if a < FLASH_PAGE_SIZE then flash_buffer ! a
                           else if a < FLASH_SECTOR_SIZE then 0xFF
                           else flash s a)\<rparr>)"

text \<open>
  \<open>read_flash_presets\<close>: the first two passes raise \<open>invalid_data\<close>, the third copies the block
  into the preset arrays when it stayed false. The byte comparisons are those of the
  source, after C's promotion of the bytes to \<open>int\<close>.
\<close>

definition invalid_magic :: "(nat \<Rightarrow> u8) \<Rightarrow> bool \<Rightarrow> bool" where
  "invalid_magic stored_presets invalid_data0 =
     fold (\<lambda>i invalid_data.
             if stored_presets i \<noteq> MAGIC_NUMBER ! i then True else invalid_data)
          [0..<MAGIC_NUMBER_LENGTH] invalid_data0"

definition invalid_fields :: "(nat \<Rightarrow> u8) \<Rightarrow> bool \<Rightarrow> bool" where
  "invalid_fields stored_presets invalid_data0 =
     fold (\<lambda>i invalid_data.
             let inv1 = (if unat (stored_presets (MAGIC_NUMBER_LENGTH + i)) < 1
                           \<or> unat (stored_presets (MAGIC_NUMBER_LENGTH + i)) > 255
                         then True else invalid_data);
                 inv2 = (if unat (stored_presets (MAGIC_NUMBER_LENGTH + i + 4)) < 1
                           \<or> unat (stored_presets (MAGIC_NUMBER_LENGTH + i + 4)) > 10
                         then True else inv1)
             in (if unat (stored_presets (MAGIC_NUMBER_LENGTH + i + 8)) > 1
                 then True else inv2))
          [0..<4] invalid_data0"

definition load_presets :: "(nat \<Rightarrow> u8) \<Rightarrow> metronome_state \<Rightarrow> metronome_state" where
  "load_presets stored_presets s0 =
     fold (\<lambda>i s. s\<lparr>tempo_presets := (tempo_presets s)[i := stored_presets (MAGIC_NUMBER_LENGTH + i)],
                   subdiv_presets := (subdiv_presets s)[i := stored_presets (MAGIC_NUMBER_LENGTH + i + 4)],
                   accent_presets := (accent_presets s)[i := stored_presets (MAGIC_NUMBER_LENGTH + i + 8)]\<rparr>)
          [0..<4] s0"

definition read_flash_presets :: "metronome_state \<Rightarrow> metronome_state" where
  "read_flash_presets s =
     (let stored_presets = flash s;
          invalid_data = invalid_fields stored_presets (invalid_magic stored_presets False)
      in if \<not> invalid_data then load_presets stored_presets s else s)"

subsection \<open>Supporting functions\<close>

definition bpm_to_interval :: "u8 \<Rightarrow> u64 option" where
  "bpm_to_interval t =
     (if t = 0 then None else Some (word_of_nat ((60 * 1000 * 1000) div unat t)))"

definition interval_to_bpm :: "u64 \<Rightarrow> u8 option" where
  "interval_to_bpm interval =
     (if interval = 0 then None else Some (ucast ((60 * 1000 * 1000) div interval)))"

subsection \<open>LED and motor\<close>

definition rgb :: "metronome_state \<Rightarrow> bool \<Rightarrow> bool \<Rightarrow> bool \<Rightarrow> metronome_state" where
  "rgb s r g b = s\<lparr>led := (r, g, b)\<rparr>"

definition blink :: "metronome_state \<Rightarrow> nat \<Rightarrow> colour \<Rightarrow> metronome_state" where
  "blink s ms color =
     (let s1 = (case color of
                  RED \<Rightarrow> rgb s True False False
                | PURPLE \<Rightarrow> rgb s True False True
                | WHITE \<Rightarrow> rgb s True True True
                | GREEN \<Rightarrow> rgb s False True False)
      in s1\<lparr>blink_alarm := Some ms\<rparr>)"

definition vibrate :: "metronome_state \<Rightarrow> nat \<Rightarrow> bool \<Rightarrow> metronome_state" where
  "vibrate s ms is_first =
     (let s1 = (if is_first then s\<lparr>pwm_wrap := 1, pwm_level := 3\<rparr>
                else s\<lparr>pwm_wrap := 2, pwm_level := 1\<rparr>)
      in s1\<lparr>pwm_enabled := True, vibrate_alarm := Some ms\<rparr>)"

subsection \<open>Alarm handlers\<close>

text \<open>
  \<open>power_on_complete\<close> also switches the onboard LED off, which is not part of the
  state.
\<close>

definition power_on_complete :: "metronome_state \<Rightarrow> metronome_state" where
  "power_on_complete s = rgb s False False False"

definition blink_complete :: "metronome_state \<Rightarrow> metronome_state" where
  "blink_complete s = rgb s False False False"

definition vibrate_complete :: "metronome_state \<Rightarrow> metronome_state" where
  "vibrate_complete s = s\<lparr>pwm_level := 0\<rparr>"

definition input_timeout :: "metronome_state \<Rightarrow> metronome_state" where
  "input_timeout s = s\<lparr>tempo_prompt := 0\<rparr>"

definition tap_timeout :: "metronome_state \<Rightarrow> metronome_state" where
  "tap_timeout s = s\<lparr>num_taps := 0\<rparr>"

subsection \<open>Metronome functions\<close>

definition stop :: "metronome_state \<Rightarrow> metronome_state" where
  "stop s = s\<lparr>metronome := None, paused := True\<rparr>"

definition set_tempo :: "metronome_state \<Rightarrow> u8 \<Rightarrow> metronome_state option" where
  "set_tempo s t =
     (if t < 1 then Some s
      else
        let s1 = stop (s\<lparr>tempo := t, ticks := 0\<rparr>) in
        case bpm_to_interval t of
          None \<Rightarrow> None
        | Some interval0 \<Rightarrow>
            if subdiv s1 = 0 then None
            else
              let interval1 = interval0 div ucast (subdiv s1);
                  interval2 = interval1 * (- 1)
              in Some (s1\<lparr>metronome := Some interval2, paused := False\<rparr>))"

definition tick :: "metronome_state \<Rightarrow> bool \<Rightarrow> metronome_state option" where
  "tick s vibr_switch =
     (let is_first = (accent s \<and> ticks s = 0);
          s1 = (if accent s \<and> ticks s = 0 then blink s BLINK_DURATION_MS PURPLE
                else blink s BLINK_DURATION_MS WHITE);
          s2 = (if \<not> vibr_switch then vibrate s1 VIBRATION_DURATION_MS is_first else s1);
          s3 = s2\<lparr>ticks := ticks s2 + 1\<rparr>;
          s4 = (if ticks s3 \<ge> subdiv s3 then s3\<lparr>ticks := 0\<rparr> else s3)
      in if recalc_interval s4 then
           (let s5 = stop s4 in
            case (if tempo s5 > 0 then set_tempo s5 (tempo s5) else Some s5) of
              None \<Rightarrow> None
            | Some s6 \<Rightarrow> Some (s6\<lparr>recalc_interval := False\<rparr>))
         else Some s4)"

text \<open>
  The source's names are kept: \<open>increase_tempo\<close> is the function that decrements.
  \<open>tempo < 256\<close> compares the byte after promotion to \<open>int\<close>.
\<close>

definition increase_tempo :: "metronome_state \<Rightarrow> metronome_state" where
  "increase_tempo s =
     (let s1 = (if tempo s > 0 then s\<lparr>tempo := tempo s - 1\<rparr> else s)
      in s1\<lparr>recalc_interval := True\<rparr>)"

definition decrease_tempo :: "metronome_state \<Rightarrow> metronome_state" where
  "decrease_tempo s =
     (let s1 = (if unat (tempo s) < 256 then s\<lparr>tempo := tempo s + 1\<rparr> else s)
      in s1\<lparr>recalc_interval := True\<rparr>)"

definition increase_tempo_hold :: "metronome_state \<Rightarrow> metronome_state" where
  "increase_tempo_hold s =
     s\<lparr>tempo_change := Some Cb_increase_tempo, long_pressed_release_lock := False\<rparr>"

definition decrease_tempo_hold :: "metronome_state \<Rightarrow> metronome_state" where
  "decrease_tempo_hold s =
     s\<lparr>tempo_change := Some Cb_decrease_tempo, long_pressed_release_lock := False\<rparr>"

definition set_measure :: "metronome_state \<Rightarrow> u8 \<Rightarrow> metronome_state option" where
  "set_measure s m =
     (if m < 1 \<or> m > 9 then Some s
      else
        let s1 = stop (s\<lparr>subdiv := m\<rparr>)
        in if tempo s1 > 0 then set_tempo s1 (tempo s1) else Some s1)"

definition toggle_accent :: "metronome_state \<Rightarrow> metronome_state" where
  "toggle_accent s = s\<lparr>accent := \<not> accent s\<rparr>"

definition type_tempo :: "metronome_state \<Rightarrow> u8 \<Rightarrow> metronome_state option" where
  "type_tempo s n =
     (let s1 = stop s;
          s2 = s1\<lparr>type_timeout_alarm := Some INPUT_TIMEOUT_MS\<rparr>;
          s3 = s2\<lparr>tempo_prompt := tempo_prompt s2 * 10\<rparr>;
          s4 = s3\<lparr>tempo_prompt := tempo_prompt s3 + ucast n\<rparr>
      in if tempo_prompt s4 > 0 \<and> tempo_prompt s4 < 256
         then set_tempo s4 (ucast (tempo_prompt s4))
         else Some s4)"

definition tap :: "metronome_state \<Rightarrow> u64 \<Rightarrow> metronome_state option" where
  "tap s now =
     (let s1 = stop s;
          s2 = s1\<lparr>tap_timeout_alarm := Some INPUT_TIMEOUT_MS\<rparr>;
          s3 = s2\<lparr>num_taps := num_taps s2 + 1\<rparr>
      in if num_taps s3 > 1 then
           (let s4 = s3\<lparr>tap_interval_avg := (tap_interval_avg s3 + (now - last_tap s3)) div 2\<rparr>
            in case interval_to_bpm (tap_interval_avg s4) of
                 None \<Rightarrow> None
               | Some t \<Rightarrow>
                   (case set_tempo s4 t of
                      None \<Rightarrow> None
                    | Some s5 \<Rightarrow> Some (s5\<lparr>last_tap := now\<rparr>)))
         else Some (s3\<lparr>last_tap := now\<rparr>))"

definition save_preset :: "metronome_state \<Rightarrow> u8 \<Rightarrow> metronome_state option" where
  "save_preset s c =
     (if tempo s = 0 then Some s
      else if \<not> unat c < 4 then None
      else
        let s1 = s\<lparr>tempo_presets := (tempo_presets s)[unat c := tempo s],
                   subdiv_presets := (subdiv_presets s)[unat c := subdiv s],
                   accent_presets := (accent_presets s)[unat c := (if accent s then 1 else 0)]\<rparr>;
            s2 = stop s1;
            s3 = blink s2 NOTIF_DURATION_MS GREEN;
            s4 = write_flash_presets s3
        in set_tempo s4 (tempo s4))"

definition apply_preset :: "metronome_state \<Rightarrow> u8 \<Rightarrow> metronome_state option" where
  "apply_preset s c =
     (if \<not> unat c < 4 then None
      else
        let s1 = s\<lparr>tempo := tempo_presets s ! unat c\<rparr>;
            s2 = s1\<lparr>accent := (accent_presets s1 ! unat c \<noteq> 0)\<rparr>
        in set_measure s2 (subdiv_presets s2 ! unat c))"

subsection \<open>Key handlers\<close>

definition key_pressed :: "metronome_state \<Rightarrow> u8 \<Rightarrow> u64 \<Rightarrow> metronome_state" where
  "key_pressed s key now =
     (let s1 = s\<lparr>last_press := now\<rparr>
      in if key = 12 then decrease_tempo s1
         else if key = 14 then increase_tempo s1
         else s1)"

definition key_released :: "metronome_state \<Rightarrow> u8 \<Rightarrow> u64 \<Rightarrow> metronome_state option" where
  "key_released s key now =
     (if long_pressed_release_lock s then Some (s\<lparr>long_pressed_release_lock := False\<rparr>)
      else
        map_option (\<lambda>s'. blink s' BLINK_DURATION_MS RED)
          (if key = 0 then type_tempo s 1
           else if key = 1 then type_tempo s 2
           else if key = 2 then type_tempo s 3
           else if key = 4 then type_tempo s 4
           else if key = 5 then type_tempo s 5
           else if key = 6 then type_tempo s 6
           else if key = 8 then type_tempo s 7
           else if key = 9 then type_tempo s 8
           else if key = 10 then type_tempo s 9
           else if key = 13 then
             (if tempo_prompt s > 0 then type_tempo s 0 else tap s now)
           else if key = 3 then apply_preset s 0
           else if key = 7 then apply_preset s 1
           else if key = 11 then apply_preset s 2
           else if key = 15 then apply_preset s 3
           else if key = 12 \<or> key = 14 then Some (s\<lparr>tempo_change := None\<rparr>)
           else Some s))"

definition key_long_pressed :: "metronome_state \<Rightarrow> u8 \<Rightarrow> metronome_state option" where
  "key_long_pressed s key =
     (let s1 = s\<lparr>long_pressed_release_lock := True\<rparr>
      in if key = 0 then set_measure s1 1
         else if key = 1 then set_measure s1 2
         else if key = 2 then set_measure s1 3
         else if key = 4 then set_measure s1 4
         else if key = 5 then set_measure s1 5
         else if key = 6 then set_measure s1 6
         else if key = 8 then set_measure s1 7
         else if key = 9 then set_measure s1 8
         else if key = 10 then set_measure s1 9
         else if key = 13 then Some (toggle_accent s1)
         else if key = 3 then save_preset s1 0
         else if key = 7 then save_preset s1 1
         else if key = 11 then save_preset s1 2
         else if key = 15 then save_preset s1 3
         else if key = 12 then Some (decrease_tempo_hold s1)
         else if key = 14 then Some (increase_tempo_hold s1)
         else Some s1)"

subsection \<open>Sequences of events\<close>

text \<open>Digits typed one after the other, each before the entry timeout of the last.\<close>

fun type_digits :: "metronome_state \<Rightarrow> u8 list \<Rightarrow> metronome_state option" where
  "type_digits s [] = Some s"
| "type_digits s (n # ns) =
     (case type_tempo s n of None \<Rightarrow> None | Some s' \<Rightarrow> type_digits s' ns)"

text \<open>Taps at the given clock readings, each before the tap timeout of the last.\<close>

fun taps :: "metronome_state \<Rightarrow> u64 list \<Rightarrow> metronome_state option" where
  "taps s [] = Some s"
| "taps s (now # nows) =
     (case tap s now of None \<Rightarrow> None | Some s' \<Rightarrow> taps s' nows)"

text \<open>Beat timer callbacks one after the other, each with the switch as it then reads.\<close>

fun tick_seq :: "metronome_state \<Rightarrow> bool list \<Rightarrow> metronome_state option" where
  "tick_seq s [] = Some s"
| "tick_seq s (v # vs) =
     (case tick s v of None \<Rightarrow> None | Some s' \<Rightarrow> tick_seq s' vs)"

subsection \<open>The event loop\<close>

text \<open>
  \<open>main\<close> loads the presets once and then polls the keypad for ever; the keypad
  library calls the three key handlers, and the SDK calls \<open>tick\<close> while the beat timer
  is armed, the +/- step while the repeat timer is armed, and the alarm handlers after
  an alarm was set. Each handler runs to its end before the next event is taken.
  \<open>inactive_check\<close> and \<open>battery_low_callback\<close> write none of the variables of the
  state and are left out, as is \<open>toggle_pause\<close>, which nothing calls.
  The states the device can be in are those reached from the boot state by these
  events, with any key, clock reading, switch reading and flash content.
\<close>

inductive reachable :: "metronome_state \<Rightarrow> bool" where
  boot: "reachable (read_flash_presets (init_state fl))"
| press: "reachable s \<Longrightarrow> reachable (key_pressed s key now)"
| release: "reachable s \<Longrightarrow> key_released s key now = Some s' \<Longrightarrow> reachable s'"
| long_press: "reachable s \<Longrightarrow> key_long_pressed s key = Some s' \<Longrightarrow> reachable s'"
| beat:
    "reachable s \<Longrightarrow> metronome s = Some d \<Longrightarrow> tick s vibr_switch = Some s'
       \<Longrightarrow> reachable s'"
| repeat_increase:
    "reachable s \<Longrightarrow> tempo_change s = Some Cb_increase_tempo
       \<Longrightarrow> reachable (increase_tempo s)"
| repeat_decrease:
    "reachable s \<Longrightarrow> tempo_change s = Some Cb_decrease_tempo
       \<Longrightarrow> reachable (decrease_tempo s)"
| entry_timeout:
    "reachable s \<Longrightarrow> type_timeout_alarm s = Some ms \<Longrightarrow> reachable (input_timeout s)"
| taps_timeout:
    "reachable s \<Longrightarrow> tap_timeout_alarm s = Some ms \<Longrightarrow> reachable (tap_timeout s)"
| blink_off:
    "reachable s \<Longrightarrow> blink_alarm s = Some ms \<Longrightarrow> reachable (blink_complete s)"
| vibrate_off:
    "reachable s \<Longrightarrow> vibrate_alarm s = Some ms \<Longrightarrow> reachable (vibrate_complete s)"
| power_on: "reachable s \<Longrightarrow> reachable (power_on_complete s)"

text \<open>
  The invariant of the subdivision counter: the subdivision is 1 to 9, and while the
  scheduler is not stopped the tick index is below it.
\<close>

definition tick_inv :: "metronome_state \<Rightarrow> bool" where
  "tick_inv s = (1 \<le> subdiv s \<and> subdiv s \<le> 9 \<and> (paused s \<or> ticks s < subdiv s))"

subsection \<open>Example states\<close>

text \<open>The device after startup on an erased flash sector.\<close>

definition boot_erased :: metronome_state where
  "boot_erased = read_flash_presets (init_state (\<lambda>a. 0xFF))"

text \<open>Then 1, 0, 0 typed, and the entry timeout passed.\<close>

definition running_at_100 :: metronome_state where
  "running_at_100 = input_timeout (the (type_digits boot_erased [1, 0, 0]))"

text \<open>
  Booted on a flash block whose first subdivision byte is 10, then 1, 2, 0 typed.
\<close>

definition running_at_120_slot_10 :: metronome_state where
  "running_at_120_slot_10 =
     the (type_digits
            (read_flash_presets (init_state
               (flash_of [0x42, 0x50, 0x4D,  60, 90, 60, 150,  10, 1, 2, 1,  0, 0, 1, 0])))
            [1, 2, 0])"

text \<open>
  After startup on an erased flash, the key of digit 1 released, the key of digit 3
  held: tempo 1 in triplets.
\<close>

definition triplets_at_1 :: metronome_state where
  "triplets_at_1 = the (key_long_pressed (the (key_released boot_erased 0 0)) 2)"

text \<open>
  After startup on an erased flash, key 12 pressed (a tempo step, which requests a
  retime), the key of digit 1 released, the key of digit 3 held: tempo 1 in triplets,
  with the retime still pending.
\<close>

definition triplets_retime_pending :: metronome_state where
  "triplets_retime_pending =
     the (key_long_pressed (the (key_released (key_pressed boot_erased 12 0) 0 0)) 2)"

section \<open>Properties\<close>

subsection \<open>Evaluation and bytes\<close>

lemmas engine_defs = init_state_def stop_def set_tempo_def bpm_to_interval_def
  interval_to_bpm_def type_tempo_def tap_def INPUT_TIMEOUT_MS_def

lemma upt_0_4: "[0..<4] = [0, 1, 2, 3]"
  by (simp add: upt_rec)

lemma upt_0_3: "[0..<3] = [0, 1, 2]"
  by (simp add: upt_rec)

lemmas flash_defs = read_flash_presets_def invalid_magic_def invalid_fields_def
  load_presets_def MAGIC_NUMBER_def MAGIC_NUMBER_LENGTH_def flash_of_def Let_def
  upt_0_3 upt_0_4 DEFAULT_TEMPO_PRESETS_def DEFAULT_SUBDIV_PRESETS_def
  DEFAULT_ACCENT_PRESETS_def

lemma ex_less_4: "(\<exists>i<4. P (i::nat)) \<longleftrightarrow> P 0 \<or> P 1 \<or> P 2 \<or> P 3"
proof -
  have "{..<4::nat} = {0, 1, 2, 3}" by auto
  then have "(\<exists>i\<in>{..<4::nat}. P i) \<longleftrightarrow> P 0 \<or> P 1 \<or> P 2 \<or> P 3" by simp
  then show ?thesis by (simp add: Bex_def)
qed

lemma u8_bound: "unat (t :: u8) \<le> 255"
  using unsigned_less [of t, where 'a = nat] by simp

lemma u8_lt_256: "unat (t :: u8) < 256"
  using u8_bound [of t] by simp

lemma u8_not_above_255: "\<not> 255 < unat (b :: u8)"
  using u8_bound [of b] by simp

lemma u8_pred: "(t :: u8) \<noteq> 0 \<Longrightarrow> unat (t - 1) = unat t - 1"
  by (simp add: unat_minus_one)

lemma u8_succ: "(t :: u8) \<noteq> 255 \<Longrightarrow> unat (t + 1) = unat t + 1"
proof -
  assume "t \<noteq> 255"
  then have "unat t \<noteq> unat (255 :: u8)"
    by (simp only: word_unat_eq_iff not_False_eq_True)
  then have "unat t < 255" using u8_bound [of t] by simp
  then show ?thesis by (simp add: unat_word_ariths)
qed

lemma one_le_pos: "(1 :: u8) \<le> x \<Longrightarrow> 0 < x"
  by (simp add: word_le_nat_alt word_less_nat_alt)

lemma map_option_SomeE:
  assumes "map_option f x = Some y"
  obtains z where "x = Some z" and "y = f z"
  using assms by (cases x) auto

text \<open>\<open>set_tempo\<close> with a tempo and a subdivision other than 0.\<close>

lemma set_tempo_Some:
  "t \<noteq> 0 \<Longrightarrow> subdiv s \<noteq> 0 \<Longrightarrow>
   set_tempo s t = Some (s\<lparr>tempo := t, ticks := 0, paused := False,
      metronome := Some (- (word_of_nat (60000000 div unat t) div ucast (subdiv s)))\<rparr>)"
  by (simp add: set_tempo_def stop_def bpm_to_interval_def Let_def)

lemma flash_init_state: "flash (init_state fl) = fl"
  by (simp add: init_state_def)

lemma boot_erased_eq: "boot_erased = init_state (\<lambda>a. 0xFF)"
  by (simp add: boot_erased_def flash_defs flash_init_state)

lemma running_at_100_facts:
  "tempo running_at_100 = 100" "subdiv running_at_100 = 1" "accent running_at_100"
  "tempo_prompt running_at_100 = 0"
  "tempo_presets running_at_100 = [60, 90, 60, 150]"
  "subdiv_presets running_at_100 = [1, 1, 2, 1]"
  "accent_presets running_at_100 = [0, 0, 1, 0]"
  "long_pressed_release_lock running_at_100 = False"
  by (simp_all add: running_at_100_def boot_erased_eq input_timeout_def engine_defs
      DEFAULT_TEMPO_PRESETS_def DEFAULT_SUBDIV_PRESETS_def DEFAULT_ACCENT_PRESETS_def)

lemma triplets_at_1_facts:
  "tempo triplets_at_1 = 1" "subdiv triplets_at_1 = 3" "ticks triplets_at_1 = 0"
  "paused triplets_at_1 = False" "recalc_interval triplets_at_1 = False"
  "accent triplets_at_1 = True" "metronome triplets_at_1 = Some (- 20000000)"
  by (simp_all add: triplets_at_1_def boot_erased_eq key_released_def key_long_pressed_def
      set_measure_def engine_defs blink_def rgb_def)

lemma triplets_retime_pending_facts:
  "tempo triplets_retime_pending = 1" "subdiv triplets_retime_pending = 3"
  "ticks triplets_retime_pending = 0" "paused triplets_retime_pending = False"
  "recalc_interval triplets_retime_pending = True" "accent triplets_retime_pending = True"
  "metronome triplets_retime_pending = Some (- 20000000)"
  by (simp_all add: triplets_retime_pending_def boot_erased_eq key_pressed_def
      decrease_tempo_def key_released_def key_long_pressed_def set_measure_def engine_defs
      blink_def rgb_def)

subsection \<open>Clock conversion\<close>

lemma roundtrip_nat:
  assumes "1 \<le> b" and "b \<le> 255"
  shows "(60000000::nat) div (60000000 div b) = b"
proof -
  define q where "q = (60000000::nat) div b"
  define r where "r = (60000000::nat) mod b"
  have "(60000000::nat) div 255 \<le> q"
    unfolding q_def using assms by (intro div_le_mono2) auto
  then have qb: "b \<le> q" using assms by simp
  have eq: "q * b + r = 60000000"
    unfolding q_def r_def by (rule div_mult_mod_eq)
  have rb: "r < b" unfolding r_def using assms by simp
  have lt: "60000000 < q * Suc b" using eq rb qb by simp
  have le: "q * b \<le> 60000000" using eq by simp
  have "60000000 div q = b" using le lt by (intro div_nat_eqI) auto
  then show ?thesis by (simp add: q_def)
qed

text \<open>
  C9. For every tempo of 1 to 255 beats per minute, converting it to the beat interval
  and the interval back gives the tempo again: the two truncating divisions of
  60,000,000 lose nothing on this range, and no division by zero occurs.
\<close>

theorem interval_to_bpm_bpm_to_interval:
  "t \<noteq> 0 \<Longrightarrow> Option.bind (bpm_to_interval t) interval_to_bpm = Some t"
proof -
  assume t: "t \<noteq> 0"
  define b where "b = unat t"
  have b: "1 \<le> b" "b \<le> 255"
    using t u8_bound [of t] by (auto simp: b_def unat_gt_0 Suc_le_eq)
  define q where "q = (60000000::nat) div b"
  have qpos: "235294 \<le> q"
    using div_le_mono2 [of b 255 60000000] b by (simp add: q_def)
  have qle: "q \<le> 60000000" by (simp add: q_def)
  have uq: "unat (word_of_nat q :: u64) = q"
    using qle by (simp add: unat_of_nat)
  have nz: "(word_of_nat q :: u64) \<noteq> 0"
    using uq qpos by (metis not_numeral_le_zero unat_0)
  have "unat ((60000000 :: u64) div word_of_nat q) = 60000000 div q"
    by (simp add: unat_div uq)
  also have "\<dots> = b" using roundtrip_nat [OF b] by (simp add: q_def)
  finally have "unat ((60000000 :: u64) div word_of_nat q) = unat t"
    by (simp add: b_def)
  then have "(ucast ((60000000 :: u64) div word_of_nat q) :: u8) = t"
    by (metis of_nat_unat ucast_id)
  then show ?thesis
    using nz t by (simp add: bpm_to_interval_def interval_to_bpm_def q_def b_def)
qed

theorem interval_to_bpm_bpm_to_interval_witness:
  "(255 :: u8) \<noteq> 0 \<and> Option.bind (bpm_to_interval 255) interval_to_bpm = Some 255"
  using interval_to_bpm_bpm_to_interval [of 255] by simp

subsection \<open>Tap tempo\<close>

text \<open>
  C1. After startup (no tap recorded, the running average at its initial 0), two taps
  500 ms apart, at any clock reading, start the scheduler at tempo 240, not 120: the
  first interval is averaged with the initial 0, giving 250 ms. A third tap 1000 ms
  after the second gives the average 625 ms and tempo 96, not 750 ms and 80.
\<close>

theorem tap_boot_500ms_1000ms:
  "map_option (\<lambda>s. (tempo s, paused s, tap_interval_avg s, metronome s))
     (taps boot_erased [t0, t0 + 500000])
     = Some (240, False, 250000, Some (- 250000))
   \<and> map_option (\<lambda>s. (tempo s, paused s, tap_interval_avg s, metronome s))
     (taps boot_erased [t0, t0 + 500000, t0 + 1500000])
     = Some (96, False, 625000, Some (- 625000))"
  by (simp add: boot_erased_eq engine_defs Let_def)

subsection \<open>Tempo entry\<close>

text \<open>
  C2, as the claim states it, fails: with tempo 100 running and the buffer empty, typing
  2, 6, 0 leaves the buffer at 260 and the scheduler stopped, but the live tempo is 26,
  the value applied when the second digit was typed, not the 100 from before.
\<close>

theorem type_digits_260_counterexample:
  "tempo running_at_100 = 100 \<and> tempo_prompt running_at_100 = 0
   \<and> map_option (\<lambda>s. (tempo_prompt s, tempo s, paused s))
        (type_digits running_at_100 [2, 6, 0])
       = Some (260, 26, True)"
  by (simp add: running_at_100_def boot_erased_eq input_timeout_def engine_defs)

text \<open>
  C2, amended. From an empty buffer (and a subdivision other than 0), typing 1, 2, 0
  leaves the scheduler running at tempo 120, with the tick index 0 and the beat timer at
  500000 us divided by the subdivision. Typing 2, 6, 0 leaves the buffer at 260, which
  is not applied: the scheduler is stopped, and the live tempo is 26, the last value of
  the buffer that was in range.
\<close>

theorem type_digits_120_and_260:
  assumes "tempo_prompt s = 0" and "subdiv s \<noteq> 0"
  shows "map_option (\<lambda>s'. (tempo_prompt s', tempo s', paused s', ticks s', metronome s'))
           (type_digits s [1, 2, 0])
         = Some (120, 120, False, 0, Some (- (500000 div ucast (subdiv s))))
       \<and> map_option (\<lambda>s'. (tempo_prompt s', tempo s', paused s', ticks s', metronome s'))
           (type_digits s [2, 6, 0])
         = Some (260, 26, True, 0, None)"
  using assms by (simp add: type_tempo_def stop_def set_tempo_Some Let_def)

theorem type_digits_120_and_260_witness:
  "tempo_prompt running_at_100 = 0 \<and> subdiv running_at_100 \<noteq> 0
   \<and> map_option (\<lambda>s'. (tempo_prompt s', tempo s', paused s', ticks s', metronome s'))
           (type_digits running_at_100 [1, 2, 0])
         = Some (120, 120, False, 0, Some (- 500000))
   \<and> map_option (\<lambda>s'. (tempo_prompt s', tempo s', paused s', ticks s', metronome s'))
           (type_digits running_at_100 [2, 6, 0])
         = Some (260, 26, True, 0, None)"
proof -
  have p: "tempo_prompt running_at_100 = 0"
    by (simp add: running_at_100_facts)
  have d: "subdiv running_at_100 = 1"
    by (simp add: running_at_100_facts)
  then have d0: "subdiv running_at_100 \<noteq> 0" by simp
  show ?thesis
    using type_digits_120_and_260 [OF p d0] p d by simp
qed

text \<open>
  C7. The entry buffer is a 16-bit variable: typing 6, 5, 5, 3, 7 after startup, from
  the empty buffer, accumulates the decimal value 65537, the buffer wraps to 1, and the
  fifth digit starts the scheduler at tempo 1.
\<close>

theorem type_digits_65537_applied:
  "map_option (\<lambda>s. (tempo_prompt s, tempo s, paused s, metronome s))
     (type_digits boot_erased [6, 5, 5, 3, 7])
     = Some (1, 1, False, Some (- 60000000))"
  by (simp add: boot_erased_eq engine_defs Let_def)

subsection \<open>Tempo steps\<close>

text \<open>
  C3, as the claim states it, fails: with the metronome running at tempo 1, the step of
  \<open>increase_tempo\<close>, which the press of key 14 takes, gives tempo 0.
\<close>

theorem increase_tempo_below_1_counterexample:
  "tempo triplets_at_1 = 1
   \<and> tempo (increase_tempo triplets_at_1) = 0
   \<and> tempo (key_pressed triplets_at_1 14 0) = 0"
  by (simp add: increase_tempo_def key_pressed_def triplets_at_1_facts)

text \<open>
  C3, amended. Every press of an adjustment key takes exactly one step and requests a
  retime, changing nothing else but the time of the last press. The step of key 14
  (\<open>increase_tempo\<close>) lowers a tempo of 1 to 255 by one, so that tempo 1 becomes 0, and
  leaves tempo 0 at 0: it never wraps below 0. The step of key 12 (\<open>decrease_tempo\<close>)
  raises a tempo of 0 to 254 by one.
\<close>

theorem key_pressed_tempo_step:
  "key_pressed s 14 now =
     s\<lparr>last_press := now, tempo := (if tempo s = 0 then 0 else tempo s - 1),
       recalc_interval := True\<rparr>
   \<and> (tempo s \<noteq> 0 \<longrightarrow> unat (tempo (key_pressed s 14 now)) = unat (tempo s) - 1)
   \<and> (tempo s \<noteq> 255 \<longrightarrow>
        key_pressed s 12 now =
          s\<lparr>last_press := now, tempo := tempo s + 1, recalc_interval := True\<rparr>
        \<and> unat (tempo (key_pressed s 12 now)) = unat (tempo s) + 1)"
  by (auto simp add: key_pressed_def increase_tempo_def decrease_tempo_def Let_def
      u8_pred u8_succ u8_lt_256 word_greater_zero_iff)

theorem key_pressed_tempo_step_witness:
  "tempo running_at_100 \<noteq> 0 \<and> tempo running_at_100 \<noteq> 255
   \<and> unat (tempo (key_pressed running_at_100 14 0)) = 99
   \<and> unat (tempo (key_pressed running_at_100 12 0)) = 101"
  using key_pressed_tempo_step [of running_at_100 0]
  by (simp add: running_at_100_facts)

subsection \<open>Preset store\<close>

text \<open>
  C5. A block with the right signature whose only deviation is a subdivision byte of 10
  passes the validation of \<open>read_flash_presets\<close>, and the 10 is loaded into the slot.
\<close>

theorem read_flash_presets_accepts_subdiv_10:
  "(\<lambda>s. (tempo_presets s, subdiv_presets s, accent_presets s))
     (read_flash_presets (init_state
        (flash_of [0x42, 0x50, 0x4D,  60, 90, 60, 150,  10, 1, 2, 1,  0, 0, 1, 0])))
   = ([60, 90, 60, 150], [10, 1, 2, 1], [0, 0, 1, 0])"
  by (simp add: flash_defs init_state_def)

text \<open>A loop that only ever raises a flag ends with the flag raised by some round.\<close>

lemma fold_raise:
  "fold (\<lambda>i inv. if c i then True else inv) xs inv0 \<longleftrightarrow> inv0 \<or> (\<exists>i\<in>set xs. c i)"
  by (induction xs arbitrary: inv0) auto

lemma invalid_magic_iff:
  "invalid_magic fl inv0 \<longleftrightarrow> inv0 \<or> fl 0 \<noteq> 0x42 \<or> fl 1 \<noteq> 0x50 \<or> fl 2 \<noteq> 0x4D"
  unfolding invalid_magic_def fold_raise
  by (simp add: MAGIC_NUMBER_def MAGIC_NUMBER_LENGTH_def upt_0_3)

lemma invalid_fields_iff:
  "invalid_fields fl inv0 \<longleftrightarrow>
     inv0 \<or> (\<exists>i<4. fl (3 + i) = 0 \<or> fl (7 + i) = 0 \<or> 10 < fl (7 + i) \<or> 1 < fl (11 + i))"
proof -
  have body: "(\<lambda>i invalid_data.
             let inv1 = (if unat (fl (MAGIC_NUMBER_LENGTH + i)) < 1
                           \<or> unat (fl (MAGIC_NUMBER_LENGTH + i)) > 255
                         then True else invalid_data);
                 inv2 = (if unat (fl (MAGIC_NUMBER_LENGTH + i + 4)) < 1
                           \<or> unat (fl (MAGIC_NUMBER_LENGTH + i + 4)) > 10
                         then True else inv1)
             in (if unat (fl (MAGIC_NUMBER_LENGTH + i + 8)) > 1
                 then True else inv2))
      = (\<lambda>i inv. if fl (3 + i) = 0 \<or> fl (7 + i) = 0 \<or> 10 < fl (7 + i) \<or> 1 < fl (11 + i)
                  then True else inv)"
    by (intro ext)
      (auto simp: Let_def MAGIC_NUMBER_LENGTH_def u8_not_above_255 word_less_nat_alt
        unat_eq_0 add.assoc)
  show ?thesis
    unfolding invalid_fields_def body fold_raise by auto
qed

text \<open>
  C6. At startup the block is taken whole or not at all. If a signature byte differs,
  or a tempo byte is 0, or a subdivision byte is 0 or above 10 (11 among them), or an
  accent byte is above 1, \<open>read_flash_presets\<close> leaves the state as it was, all three
  preset arrays at their defaults. Otherwise all four slots of the three arrays are
  overwritten with the bytes of the block.
\<close>

theorem read_flash_presets_all_or_nothing:
  "read_flash_presets (init_state fl) =
     (if fl 0 \<noteq> 0x42 \<or> fl 1 \<noteq> 0x50 \<or> fl 2 \<noteq> 0x4D
         \<or> (\<exists>i<4. fl (3 + i) = 0)
         \<or> (\<exists>i<4. fl (7 + i) = 0 \<or> 10 < fl (7 + i))
         \<or> (\<exists>i<4. 1 < fl (11 + i))
      then init_state fl
      else (init_state fl)
             \<lparr>tempo_presets := [fl 3, fl 4, fl 5, fl 6],
              subdiv_presets := [fl 7, fl 8, fl 9, fl 10],
              accent_presets := [fl 11, fl 12, fl 13, fl 14]\<rparr>)"
proof -
  have inv: "invalid_fields fl (invalid_magic fl False) \<longleftrightarrow>
      (fl 0 \<noteq> 0x42 \<or> fl 1 \<noteq> 0x50 \<or> fl 2 \<noteq> 0x4D
         \<or> (\<exists>i<4. fl (3 + i) = 0)
         \<or> (\<exists>i<4. fl (7 + i) = 0 \<or> 10 < fl (7 + i))
         \<or> (\<exists>i<4. 1 < fl (11 + i)))"
    unfolding invalid_fields_iff invalid_magic_iff by blast
  have ld: "load_presets fl (init_state fl) = (init_state fl)
             \<lparr>tempo_presets := [fl 3, fl 4, fl 5, fl 6],
              subdiv_presets := [fl 7, fl 8, fl 9, fl 10],
              accent_presets := [fl 11, fl 12, fl 13, fl 14]\<rparr>"
    by (simp add: load_presets_def MAGIC_NUMBER_LENGTH_def upt_0_4 init_state_def
        DEFAULT_TEMPO_PRESETS_def DEFAULT_SUBDIV_PRESETS_def DEFAULT_ACCENT_PRESETS_def)
  have fl: "flash (init_state fl) = fl" by (simp add: init_state_def)
  have swap: "\<And>C (x::metronome_state) y. (if \<not> C then x else y) = (if C then y else x)"
    by simp
  show ?thesis
    unfolding read_flash_presets_def Let_def fl ld inv swap by (rule refl)
qed

theorem read_flash_presets_all_or_nothing_witness:
  "read_flash_presets (init_state
       (flash_of [0x42, 0x50, 0x4D,  100, 90, 60, 150,  1, 11, 2, 1,  0, 0, 1, 0]))
     = init_state (flash_of [0x42, 0x50, 0x4D,  100, 90, 60, 150,  1, 11, 2, 1,  0, 0, 1, 0])
   \<and> read_flash_presets (init_state
       (flash_of [0x43, 0x50, 0x4D,  100, 90, 60, 150,  1, 1, 2, 1,  0, 0, 1, 0]))
     = init_state (flash_of [0x43, 0x50, 0x4D,  100, 90, 60, 150,  1, 1, 2, 1,  0, 0, 1, 0])
   \<and> read_flash_presets (init_state
       (flash_of [0x42, 0x50, 0x4D,  100, 90, 60, 150,  1, 0, 2, 1,  0, 0, 1, 0]))
     = init_state (flash_of [0x42, 0x50, 0x4D,  100, 90, 60, 150,  1, 0, 2, 1,  0, 0, 1, 0])
   \<and> (\<lambda>s. (tempo_presets s, subdiv_presets s, accent_presets s))
       (read_flash_presets (init_state
         (flash_of [0x42, 0x50, 0x4D,  100, 120, 40, 200,  2, 3, 4, 9,  1, 0, 1, 1])))
     = ([100, 120, 40, 200], [2, 3, 4, 9], [1, 0, 1, 1])"
  using read_flash_presets_all_or_nothing
          [of "flash_of [0x42, 0x50, 0x4D,  100, 90, 60, 150,  1, 11, 2, 1,  0, 0, 1, 0]"]
        read_flash_presets_all_or_nothing
          [of "flash_of [0x43, 0x50, 0x4D,  100, 90, 60, 150,  1, 1, 2, 1,  0, 0, 1, 0]"]
        read_flash_presets_all_or_nothing
          [of "flash_of [0x42, 0x50, 0x4D,  100, 90, 60, 150,  1, 0, 2, 1,  0, 0, 1, 0]"]
        read_flash_presets_all_or_nothing
          [of "flash_of [0x42, 0x50, 0x4D,  100, 120, 40, 200,  2, 3, 4, 9,  1, 0, 1, 1]"]
  by (simp add: flash_of_def ex_less_4)

text \<open>
  C10. When the slot's subdivision is outside 1 to 9, applying the preset overwrites the
  live tempo and accent from the slot and changes nothing else: the live subdivision,
  the tick index, the beat timer and the paused flag are those of before, so a running
  metronome keeps its previous interval.
\<close>

theorem apply_preset_subdiv_out_of_range:
  "unat c < 4 \<Longrightarrow>
   subdiv_presets s ! unat c < 1 \<or> 9 < subdiv_presets s ! unat c \<Longrightarrow>
   apply_preset s c =
     Some (s\<lparr>tempo := tempo_presets s ! unat c,
             accent := (accent_presets s ! unat c \<noteq> 0)\<rparr>)"
  by (simp add: apply_preset_def set_measure_def Let_def)

text \<open>
  Such a slot is reached from a flash block with a subdivision byte of 10: with the
  metronome then running at 120, applying slot 0 sets the tempo variable to 60 and the
  accent off while the beat timer stays at the 500000 us of tempo 120.
\<close>

theorem apply_preset_subdiv_out_of_range_witness:
  "unat (0 :: u8) < 4
   \<and> (subdiv_presets running_at_120_slot_10 ! unat (0 :: u8) < 1
        \<or> 9 < subdiv_presets running_at_120_slot_10 ! unat (0 :: u8))
   \<and> (\<lambda>s. (tempo s, accent s, subdiv s, paused s, metronome s)) running_at_120_slot_10
       = (120, True, 1, False, Some (- 500000))
   \<and> map_option (\<lambda>s'. (tempo s', accent s', subdiv s', paused s', metronome s'))
        (apply_preset running_at_120_slot_10 0)
       = Some (60, False, 1, False, Some (- 500000))"
proof -
  have h: "unat (0 :: u8) < 4" by simp
  have sub: "subdiv_presets running_at_120_slot_10 = [10, 1, 2, 1]"
    by (simp add: running_at_120_slot_10_def flash_defs engine_defs)
  have st: "(\<lambda>s. (tempo s, accent s, subdiv s, paused s, metronome s)) running_at_120_slot_10
       = (120, True, 1, False, Some (- 500000))"
    by (simp add: running_at_120_slot_10_def flash_defs engine_defs)
  have pre: "tempo_presets running_at_120_slot_10 ! 0 = 60"
    "accent_presets running_at_120_slot_10 ! 0 = 0"
    by (simp_all add: running_at_120_slot_10_def flash_defs engine_defs)
  have r: "subdiv_presets running_at_120_slot_10 ! unat (0 :: u8) < 1
        \<or> 9 < subdiv_presets running_at_120_slot_10 ! unat (0 :: u8)"
    by (simp add: sub)
  show ?thesis
    using apply_preset_subdiv_out_of_range [OF h r] h r st pre by simp
qed

subsection \<open>Key router\<close>

text \<open>
  C4, as the claim states it, fails for the two adjustment keys: the long press of key
  12 arms the repeat timer and clears the lock again, so the release that follows is
  not swallowed: it cancels the repeat timer and blinks red.
\<close>

theorem long_press_adjustment_key_counterexample:
  "map_option (\<lambda>s. (long_pressed_release_lock s, tempo_change s, led s))
      (key_long_pressed boot_erased 12)
     = Some (False, Some Cb_decrease_tempo, (False, False, False))
   \<and> map_option (\<lambda>s. (long_pressed_release_lock s, tempo_change s, led s))
      (Option.bind (key_long_pressed boot_erased 12) (\<lambda>s. key_released s 12 0))
     = Some (False, None, (True, False, False))"
  by (simp add: key_long_pressed_def key_released_def decrease_tempo_hold_def
      boot_erased_eq init_state_def blink_def rgb_def)

lemma set_tempo_lock:
  "set_tempo s t = Some s' \<Longrightarrow> long_pressed_release_lock s' = long_pressed_release_lock s"
  by (auto simp: set_tempo_def stop_def Let_def split: if_splits option.splits)

lemma set_measure_lock:
  "set_measure s m = Some s' \<Longrightarrow> long_pressed_release_lock s' = long_pressed_release_lock s"
  by (auto simp: set_measure_def stop_def Let_def split: if_splits dest!: set_tempo_lock)

lemma save_preset_lock:
  "save_preset s c = Some s' \<Longrightarrow> long_pressed_release_lock s' = long_pressed_release_lock s"
  by (auto simp: save_preset_def stop_def blink_def rgb_def write_flash_presets_def Let_def
      split: if_splits dest!: set_tempo_lock)

lemma key_long_pressed_lock:
  assumes "key \<noteq> 12" and "key \<noteq> 14" and "key_long_pressed s key = Some s'"
  shows "long_pressed_release_lock s'"
  using assms
  by (auto simp: key_long_pressed_def Let_def toggle_accent_def split: if_splits
      dest!: set_measure_lock save_preset_lock)

text \<open>
  C4, amended. For every key other than the two adjustment keys 12 and 14, the long
  press leaves the lock set, and the release that follows only clears the lock: it
  performs no release action and no blink, and the lock being clear, the release after
  it is not swallowed. The long press of a letter key is one call of \<open>save_preset\<close>
  for its slot, so with the release swallowed, \<open>apply_preset\<close> is not called.
\<close>

theorem long_press_release_swallowed:
  assumes "key \<noteq> 12" and "key \<noteq> 14" and "key_long_pressed s key = Some s'"
  shows "long_pressed_release_lock s'
       \<and> key_released s' key now = Some (s'\<lparr>long_pressed_release_lock := False\<rparr>)
       \<and> key_long_pressed s 3 = save_preset (s\<lparr>long_pressed_release_lock := True\<rparr>) 0
       \<and> key_long_pressed s 7 = save_preset (s\<lparr>long_pressed_release_lock := True\<rparr>) 1
       \<and> key_long_pressed s 11 = save_preset (s\<lparr>long_pressed_release_lock := True\<rparr>) 2
       \<and> key_long_pressed s 15 = save_preset (s\<lparr>long_pressed_release_lock := True\<rparr>) 3"
proof -
  have l: "long_pressed_release_lock s'" using assms by (rule key_long_pressed_lock)
  then have r: "key_released s' key now = Some (s'\<lparr>long_pressed_release_lock := False\<rparr>)"
    by (simp add: key_released_def)
  have k: "key_long_pressed s 3 = save_preset (s\<lparr>long_pressed_release_lock := True\<rparr>) 0"
    "key_long_pressed s 7 = save_preset (s\<lparr>long_pressed_release_lock := True\<rparr>) 1"
    "key_long_pressed s 11 = save_preset (s\<lparr>long_pressed_release_lock := True\<rparr>) 2"
    "key_long_pressed s 15 = save_preset (s\<lparr>long_pressed_release_lock := True\<rparr>) 3"
    by (simp_all add: key_long_pressed_def)
  show ?thesis using l r k by simp
qed

text \<open>
  With tempo 100 running, holding key A stores (100, 1, accent on) in slot 0; after the
  release the live tempo is still 100 and not the 60 the slot held before.
\<close>

theorem long_press_release_swallowed_witness:
  "(3 :: u8) \<noteq> 12 \<and> (3 :: u8) \<noteq> 14
   \<and> key_long_pressed running_at_100 3 = Some (the (key_long_pressed running_at_100 3))
   \<and> long_pressed_release_lock (the (key_long_pressed running_at_100 3))
   \<and> key_released (the (key_long_pressed running_at_100 3)) 3 0
       = Some ((the (key_long_pressed running_at_100 3))
                 \<lparr>long_pressed_release_lock := False\<rparr>)
   \<and> (\<lambda>s. (tempo_presets s, subdiv_presets s, accent_presets s, tempo s))
       (the (key_long_pressed running_at_100 3))
       = ([100, 90, 60, 150], [1, 1, 2, 1], [1, 0, 1, 0], 100)"
proof -
  have k: "key_long_pressed running_at_100 3
      = save_preset (running_at_100\<lparr>long_pressed_release_lock := True\<rparr>) 0"
    by (simp add: key_long_pressed_def)
  have e: "key_long_pressed running_at_100 3 = Some (the (key_long_pressed running_at_100 3))"
    unfolding k
    by (simp add: save_preset_def running_at_100_facts stop_def blink_def rgb_def
        write_flash_presets_def set_tempo_Some Let_def)
  have v: "(\<lambda>s. (tempo_presets s, subdiv_presets s, accent_presets s, tempo s))
       (the (key_long_pressed running_at_100 3))
       = ([100, 90, 60, 150], [1, 1, 2, 1], [1, 0, 1, 0], 100)"
    unfolding k
    by (simp add: save_preset_def running_at_100_facts stop_def blink_def rgb_def
        write_flash_presets_def set_tempo_Some Let_def)
  have n: "(3 :: u8) \<noteq> 12" "(3 :: u8) \<noteq> 14" by simp_all
  show ?thesis
    using long_press_release_swallowed [OF n e, of 0] n e v by blast
qed

subsection \<open>Subdivision counter\<close>

text \<open>One tick with no retime pending, and what any tick shows.\<close>

lemma tick_no_recalc:
  assumes "\<not> recalc_interval s"
  shows "\<exists>s'. tick s v = Some s'
     \<and> ticks s' = (if subdiv s \<le> ticks s + 1 then 0 else ticks s + 1)
     \<and> subdiv s' = subdiv s \<and> \<not> recalc_interval s' \<and> accent s' = accent s
     \<and> tempo s' = tempo s \<and> paused s' = paused s \<and> metronome s' = metronome s"
  using assms
  by (simp add: tick_def blink_def vibrate_def rgb_def Let_def)

lemma tick_accent:
  assumes "tick s v = Some s'"
  shows "led s' = (if accent s \<and> ticks s = 0 then (True, False, True) else (True, True, True))"
    and "\<not> v \<Longrightarrow> (pwm_wrap s', pwm_level s', pwm_enabled s')
           = (if accent s \<and> ticks s = 0 then (1, 3, True) else (2, 1, True))"
    and "v \<Longrightarrow> (pwm_wrap s', pwm_level s', pwm_enabled s')
           = (pwm_wrap s, pwm_level s, pwm_enabled s)"
  using assms
  by (auto simp: tick_def blink_def vibrate_def rgb_def Let_def set_tempo_def stop_def
      split: if_splits option.splits)

lemma tick_invariant:
  assumes "subdiv s \<noteq> 0"
  shows "\<exists>s'. tick s v = Some s' \<and> ticks s' < subdiv s' \<and> subdiv s' = subdiv s"
  using assms
  by (auto simp: tick_def blink_def vibrate_def rgb_def Let_def set_tempo_def stop_def
      bpm_to_interval_def word_greater_zero_iff not_le
      split: if_splits option.splits)

text \<open>
  A tick with a retime pending restarts the scheduler at the current tempo, with the
  tick index back at 0.
\<close>

lemma tick_retime:
  assumes "recalc_interval s" and "tempo s \<noteq> 0" and "subdiv s \<noteq> 0"
  shows "\<exists>s'. tick s v = Some s' \<and> ticks s' = 0 \<and> \<not> recalc_interval s' \<and> \<not> paused s'
           \<and> tempo s' = tempo s \<and> subdiv s' = subdiv s"
  using assms
  by (simp add: tick_def blink_def vibrate_def rgb_def stop_def set_tempo_Some Let_def
      word_greater_zero_iff)

text \<open>The counter step of \<open>tick\<close> at subdivision 3.\<close>

lemma step3:
  assumes "(t :: u8) < 3"
  shows "unat (if 3 \<le> t + 1 then 0 else t + 1) = (unat t + 1) mod 3"
proof -
  have t: "unat t < 3" using assms by (simp add: word_less_nat_alt)
  then have "t \<noteq> 255" by auto
  then have s: "unat (t + 1) = unat t + 1" by (rule u8_succ)
  show ?thesis
  proof (cases "unat t = 2")
    case True
    then show ?thesis using s by (simp add: word_le_nat_alt)
  next
    case False
    then have "unat t < 2" using t by simp
    then show ?thesis using s by (simp add: word_le_nat_alt)
  qed
qed

lemma tick_seq_cycle:
  "subdiv s = 3 \<Longrightarrow> ticks s < 3 \<Longrightarrow> \<not> recalc_interval s \<Longrightarrow>
   \<exists>s'. tick_seq s vs = Some s'
     \<and> unat (ticks s') = (unat (ticks s) + length vs) mod 3
     \<and> subdiv s' = 3 \<and> \<not> recalc_interval s' \<and> accent s' = accent s
     \<and> tempo s' = tempo s \<and> paused s' = paused s \<and> metronome s' = metronome s"
proof (induction vs arbitrary: s)
  case Nil
  then show ?case by (simp add: word_less_nat_alt)
next
  case (Cons v vs)
  from tick_no_recalc [OF Cons.prems(3), of v] obtain s1 where
    s1: "tick s v = Some s1"
      "ticks s1 = (if subdiv s \<le> ticks s + 1 then 0 else ticks s + 1)"
      "subdiv s1 = subdiv s" "\<not> recalc_interval s1" "accent s1 = accent s"
      "tempo s1 = tempo s" "paused s1 = paused s" "metronome s1 = metronome s"
    by blast
  have u: "unat (ticks s1) = (unat (ticks s) + 1) mod 3"
    using step3 [OF Cons.prems(2)] s1(2) Cons.prems(1) by simp
  then have lt: "ticks s1 < 3" by (simp add: word_less_nat_alt)
  from Cons.IH [of s1] s1 Cons.prems(1) lt obtain s' where
    s': "tick_seq s1 vs = Some s'"
      "unat (ticks s') = (unat (ticks s1) + length vs) mod 3"
      "subdiv s' = 3" "\<not> recalc_interval s'" "accent s' = accent s1"
      "tempo s' = tempo s1" "paused s' = paused s1" "metronome s' = metronome s1"
    by auto
  have "unat (ticks s') = (unat (ticks s) + length (v # vs)) mod 3"
    using s'(2) u by (simp add: mod_simps)
  then show ?case using s1 s' by simp
qed


text \<open>Every handler keeps \<open>tick_inv\<close>.\<close>

lemma set_tempo_inv:
  assumes "tick_inv s" and "set_tempo s t = Some s'"
  shows "tick_inv s'"
  using assms
  by (auto simp: tick_inv_def set_tempo_def stop_def Let_def one_le_pos
      split: if_splits option.splits)

lemma set_measure_inv:
  assumes "tick_inv s" and "set_measure s m = Some s'"
  shows "tick_inv s'"
proof (cases "m < 1 \<or> m > 9")
  case True
  then show ?thesis using assms by (simp add: set_measure_def)
next
  case False
  then have m: "1 \<le> m" "m \<le> 9" by (auto simp: not_less word_le_nat_alt word_less_nat_alt)
  let ?s1 = "stop (s\<lparr>subdiv := m\<rparr>)"
  have i1: "tick_inv ?s1" using m by (simp add: tick_inv_def stop_def)
  show ?thesis
  proof (cases "tempo ?s1 > 0")
    case True
    then have "set_tempo ?s1 (tempo ?s1) = Some s'"
      using assms(2) False by (simp add: set_measure_def Let_def)
    then show ?thesis using i1 by (rule set_tempo_inv [rotated])
  next
    case F: False
    then have "s' = ?s1" using assms(2) False by (simp add: set_measure_def Let_def)
    then show ?thesis using i1 by simp
  qed
qed

lemma stop_inv: "tick_inv s \<Longrightarrow> tick_inv (stop s)"
  by (simp add: tick_inv_def stop_def)

lemma type_tempo_inv:
  assumes "tick_inv s" and "type_tempo s n = Some s'"
  shows "tick_inv s'"
proof -
  let ?s4 = "(stop s)\<lparr>type_timeout_alarm := Some INPUT_TIMEOUT_MS,
      tempo_prompt := tempo_prompt s * 10 + ucast n\<rparr>"
  have i4: "tick_inv ?s4" using assms(1) by (simp add: tick_inv_def stop_def)
  have "s' = ?s4 \<or> (\<exists>t. set_tempo ?s4 t = Some s')"
    using assms(2) by (auto simp: type_tempo_def Let_def stop_def split: if_splits)
  then show ?thesis using i4 set_tempo_inv by blast
qed

lemma tap_inv:
  assumes "tick_inv s" and "tap s now = Some s'"
  shows "tick_inv s'"
proof (cases "num_taps s + 1 > 1")
  case True
  let ?s4 = "(stop s)\<lparr>tap_timeout_alarm := Some INPUT_TIMEOUT_MS, num_taps := num_taps s + 1,
      tap_interval_avg := (tap_interval_avg s + (now - last_tap s)) div 2\<rparr>"
  have i4: "tick_inv ?s4" using assms(1) by (simp add: tick_inv_def stop_def)
  from assms(2) True obtain t s5 where
    "set_tempo ?s4 t = Some s5" and s': "s' = s5\<lparr>last_tap := now\<rparr>"
    by (auto simp: tap_def Let_def stop_def split: option.splits)
  then have "tick_inv s5" using i4 set_tempo_inv by blast
  then show ?thesis by (simp add: s' tick_inv_def)
next
  case False
  then show ?thesis using assms by (auto simp: tap_def Let_def stop_def tick_inv_def)
qed

lemma blink_inv: "tick_inv (blink s ms c) = tick_inv s"
  by (cases c) (simp_all add: blink_def rgb_def tick_inv_def)

lemma save_preset_inv:
  assumes "tick_inv s" and "save_preset s c = Some s'"
  shows "tick_inv s'"
proof (cases "tempo s = 0")
  case True
  then show ?thesis using assms by (simp add: save_preset_def)
next
  case False
  define s4 where "s4 = write_flash_presets (blink (stop (s\<lparr>tempo_presets := (tempo_presets s)[unat c := tempo s],
                   subdiv_presets := (subdiv_presets s)[unat c := subdiv s],
                   accent_presets := (accent_presets s)[unat c := (if accent s then 1 else 0)]\<rparr>))
        NOTIF_DURATION_MS GREEN)"
  have i4: "tick_inv s4" using assms(1)
    by (simp add: s4_def write_flash_presets_def blink_def rgb_def stop_def tick_inv_def Let_def)
  have "set_tempo s4 (tempo s4) = Some s'"
    using assms(2) False by (simp add: save_preset_def Let_def s4_def split: if_splits)
  then show ?thesis using i4 set_tempo_inv by blast
qed

lemma apply_preset_inv:
  assumes "tick_inv s" and "apply_preset s c = Some s'"
  shows "tick_inv s'"
proof -
  let ?s2 = "s\<lparr>tempo := tempo_presets s ! unat c, accent := (accent_presets s ! unat c \<noteq> 0)\<rparr>"
  have i2: "tick_inv ?s2" using assms(1) by (simp add: tick_inv_def)
  have "set_measure ?s2 (subdiv_presets s ! unat c) = Some s'"
    using assms(2) by (simp add: apply_preset_def Let_def split: if_splits)
  then show ?thesis using i2 set_measure_inv by blast
qed

lemma tick_inv_step:
  assumes "tick_inv s" and "tick s v = Some s'"
  shows "tick_inv s'"
proof -
  have "subdiv s \<noteq> 0" using assms(1) one_le_pos [of "subdiv s"] by (auto simp: tick_inv_def)
  from tick_invariant [OF this, of v] assms show ?thesis by (auto simp: tick_inv_def)
qed


lemma key_released_inv:
  assumes "tick_inv s" and "key_released s key now = Some s'"
  shows "tick_inv s'"
proof (cases "long_pressed_release_lock s")
  case True
  then have "s' = s\<lparr>long_pressed_release_lock := False\<rparr>"
    using assms(2) by (simp add: key_released_def)
  then show ?thesis using assms(1) by (simp add: tick_inv_def)
next
  case False
  have upd: "tick_inv (s\<lparr>tempo_change := None\<rparr>)" using assms(1) by (simp add: tick_inv_def)
  from assms(2) False obtain s1 where
    a: "(if key = 0 then type_tempo s 1
           else if key = 1 then type_tempo s 2
           else if key = 2 then type_tempo s 3
           else if key = 4 then type_tempo s 4
           else if key = 5 then type_tempo s 5
           else if key = 6 then type_tempo s 6
           else if key = 8 then type_tempo s 7
           else if key = 9 then type_tempo s 8
           else if key = 10 then type_tempo s 9
           else if key = 13 then
             (if tempo_prompt s > 0 then type_tempo s 0 else tap s now)
           else if key = 3 then apply_preset s 0
           else if key = 7 then apply_preset s 1
           else if key = 11 then apply_preset s 2
           else if key = 15 then apply_preset s 3
           else if key = 12 \<or> key = 14 then Some (s\<lparr>tempo_change := None\<rparr>)
           else Some s) = Some s1" and s': "s' = blink s1 BLINK_DURATION_MS RED"
    unfolding key_released_def by (simp only: if_False) (erule map_option_SomeE)
  have "tick_inv s1"
    using a assms(1) upd type_tempo_inv [OF assms(1)] tap_inv [OF assms(1)]
      apply_preset_inv [OF assms(1)]
    by (simp split: if_splits)
  then show ?thesis by (simp add: s' blink_inv)
qed

lemma key_long_pressed_inv:
  assumes "tick_inv s" and "key_long_pressed s key = Some s'"
  shows "tick_inv s'"
proof -
  let ?s1 = "s\<lparr>long_pressed_release_lock := True\<rparr>"
  have i1: "tick_inv ?s1" using assms(1) by (simp add: tick_inv_def)
  have i2: "tick_inv (toggle_accent ?s1)" "tick_inv (decrease_tempo_hold ?s1)"
    "tick_inv (increase_tempo_hold ?s1)"
    using assms(1)
    by (simp_all add: tick_inv_def toggle_accent_def decrease_tempo_hold_def
        increase_tempo_hold_def)
  show ?thesis
    using assms(2) i1 i2 set_measure_inv [OF i1] save_preset_inv [OF i1]
    unfolding key_long_pressed_def Let_def
    by (simp split: if_splits)
qed


lemma reachable_tick_inv: "reachable s \<Longrightarrow> tick_inv s"
proof (induction rule: reachable.induct)
  case (boot fl)
  have "subdiv (read_flash_presets (init_state fl)) = 1"
    "paused (read_flash_presets (init_state fl))"
    by (simp_all add: read_flash_presets_def load_presets_def upt_0_4 init_state_def Let_def)
  then show ?case by (simp add: tick_inv_def)
next
  case (press s key now)
  then show ?case
    by (simp add: key_pressed_def increase_tempo_def decrease_tempo_def tick_inv_def Let_def)
next
  case (release s key now s')
  then show ?case using key_released_inv by blast
next
  case (long_press s key s')
  then show ?case using key_long_pressed_inv by blast
next
  case (beat s d vibr_switch s')
  then show ?case using tick_inv_step by blast
next
  case (repeat_increase s)
  then show ?case by (simp add: increase_tempo_def tick_inv_def Let_def)
next
  case (repeat_decrease s)
  then show ?case by (simp add: decrease_tempo_def tick_inv_def Let_def)
next
  case (entry_timeout s ms)
  then show ?case by (simp add: input_timeout_def tick_inv_def)
next
  case (taps_timeout s ms)
  then show ?case by (simp add: tap_timeout_def tick_inv_def)
next
  case (blink_off s ms)
  then show ?case by (simp add: blink_complete_def rgb_def tick_inv_def)
next
  case (vibrate_off s ms)
  then show ?case by (simp add: vibrate_complete_def tick_inv_def)
next
  case (power_on s)
  then show ?case by (simp add: power_on_complete_def rgb_def tick_inv_def)
qed


text \<open>The two example states in triplets are reached by key events.\<close>

lemma triplets_at_1_reachable: "reachable triplets_at_1"
proof -
  have r0: "reachable boot_erased"
    unfolding boot_erased_def by (rule reachable.boot)
  have e1: "key_released boot_erased 0 0 = Some (the (key_released boot_erased 0 0))"
    unfolding boot_erased_eq by (simp add: key_released_def engine_defs)
  have r1: "reachable (the (key_released boot_erased 0 0))"
    using r0 e1 by (rule reachable.release)
  have e2: "key_long_pressed (the (key_released boot_erased 0 0)) 2 = Some triplets_at_1"
    unfolding boot_erased_eq triplets_at_1_def
    by (simp add: key_released_def key_long_pressed_def set_measure_def engine_defs
        blink_def rgb_def Let_def)
  show ?thesis using r1 e2 by (rule reachable.long_press)
qed

lemma triplets_retime_pending_reachable: "reachable triplets_retime_pending"
proof -
  let ?s1 = "key_pressed boot_erased 12 0"
  have r0: "reachable boot_erased"
    unfolding boot_erased_def by (rule reachable.boot)
  have r1: "reachable ?s1" using r0 by (rule reachable.press)
  have e2: "key_released ?s1 0 0 = Some (the (key_released ?s1 0 0))"
    unfolding boot_erased_eq
    by (simp add: key_pressed_def decrease_tempo_def key_released_def engine_defs)
  have r2: "reachable (the (key_released ?s1 0 0))"
    using r1 e2 by (rule reachable.release)
  have e3: "key_long_pressed (the (key_released ?s1 0 0)) 2 = Some triplets_retime_pending"
    unfolding boot_erased_eq triplets_retime_pending_def
    by (simp add: key_pressed_def decrease_tempo_def key_released_def key_long_pressed_def
        set_measure_def engine_defs blink_def rgb_def Let_def)
  show ?thesis using r2 e3 by (rule reachable.long_press)
qed

text \<open>
  C8, as the claim states it, fails: a tempo step of key 12 taken before the tempo is
  typed leaves a retime pending, and the metronome then started in triplets is a
  reachable state in which the scheduler runs with subdivision 3 and tick index 0.
  Its first tick restarts the scheduler, so the first three ticks are entered with the
  index at 0, 0, 1 (leaving it at 0, 1, 2) and the accent colour shows on the first two
  in a row.
\<close>

theorem tick_retime_pending_counterexample:
  "reachable triplets_retime_pending \<and> \<not> paused triplets_retime_pending
   \<and> subdiv triplets_retime_pending = 3 \<and> ticks triplets_retime_pending = 0
   \<and> accent triplets_retime_pending
   \<and> map_option (\<lambda>s. (ticks s, led s, paused s))
        (tick_seq triplets_retime_pending [False])
       = Some (0, (True, False, True), False)
   \<and> map_option (\<lambda>s. (ticks s, led s, paused s))
        (tick_seq triplets_retime_pending [False, False])
       = Some (1, (True, False, True), False)
   \<and> map_option (\<lambda>s. (ticks s, led s, paused s))
        (tick_seq triplets_retime_pending [False, False, False])
       = Some (2, (True, True, True), False)"
proof -
  have steps:
    "map_option (\<lambda>s. (ticks s, led s, paused s))
        (tick_seq triplets_retime_pending [False])
       = Some (0, (True, False, True), False)"
    "map_option (\<lambda>s. (ticks s, led s, paused s))
        (tick_seq triplets_retime_pending [False, False])
       = Some (1, (True, False, True), False)"
    "map_option (\<lambda>s. (ticks s, led s, paused s))
        (tick_seq triplets_retime_pending [False, False, False])
       = Some (2, (True, True, True), False)"
    by (simp_all add: tick_def blink_def rgb_def vibrate_def stop_def set_tempo_Some
        triplets_retime_pending_facts Let_def word_le_nat_alt)
  show ?thesis
    using triplets_retime_pending_reachable steps
    by (simp add: triplets_retime_pending_facts)
qed

text \<open>
  C8, amended. In every state the device can reach in which the scheduler runs with
  subdivision 3, the tick index is below the subdivision, and a tick leaves it below
  the subdivision and shows the accent colour (purple, otherwise white) exactly when
  the accent flag is set and the index on entry is 0, and, when the vibration switch
  reads low, the accent pulse of the motor exactly then as well.
  While no retime is pending, any number of tick callbacks advance the index by one
  modulo 3 each, so from the 0 the scheduler starts with it goes 0, 1, 2, 0, 1, 2, and
  so on, with the scheduler still running, and the tick after them shows the accent
  exactly when the flag is set and the index on entry is 0.
  A tick entered with a retime pending and a tempo other than 0 restarts the scheduler
  with the index at 0, and the ticks after it advance the index by one modulo 3 each
  from there.
\<close>

theorem tick_index_cycle_subdiv_3:
  assumes "reachable s" and "\<not> paused s" and "subdiv s = 3"
  shows "ticks s < subdiv s
       \<and> (\<exists>s1. tick s v = Some s1 \<and> ticks s1 < subdiv s1 \<and> subdiv s1 = 3
             \<and> led s1 = (if accent s \<and> ticks s = 0 then (True, False, True)
                          else (True, True, True))
             \<and> (pwm_wrap s1, pwm_level s1) =
                 (if v then (pwm_wrap s, pwm_level s)
                  else if accent s \<and> ticks s = 0 then (1, 3) else (2, 1)))
       \<and> (\<not> recalc_interval s \<longrightarrow>
           (\<exists>s'. tick_seq s vs = Some s'
              \<and> unat (ticks s') = (unat (ticks s) + length vs) mod 3
              \<and> ticks s' < subdiv s' \<and> subdiv s' = 3 \<and> \<not> paused s'
              \<and> (\<exists>s''. tick s' v = Some s''
                   \<and> led s'' = (if accent s' \<and> ticks s' = 0 then (True, False, True)
                                 else (True, True, True))
                   \<and> (pwm_wrap s'', pwm_level s'') =
                       (if v then (pwm_wrap s', pwm_level s')
                        else if accent s' \<and> ticks s' = 0 then (1, 3) else (2, 1)))))
       \<and> (recalc_interval s \<longrightarrow> tempo s \<noteq> 0 \<longrightarrow>
           (\<exists>s1. tick s v = Some s1 \<and> ticks s1 = 0 \<and> \<not> recalc_interval s1 \<and> \<not> paused s1)
           \<and> (\<exists>s'. tick_seq s (v # vs) = Some s'
                 \<and> unat (ticks s') = length vs mod 3
                 \<and> ticks s' < subdiv s' \<and> subdiv s' = 3 \<and> \<not> paused s'))"
proof -
  have "tick_inv s" using assms(1) by (rule reachable_tick_inv)
  then have lt: "ticks s < subdiv s" using assms(2) by (simp add: tick_inv_def)
  then have lt3: "ticks s < 3" using assms(3) by simp
  have nz: "subdiv s \<noteq> 0" using assms(3) by simp
  have one: "\<exists>s1. tick s v = Some s1 \<and> ticks s1 < subdiv s1 \<and> subdiv s1 = 3
             \<and> led s1 = (if accent s \<and> ticks s = 0 then (True, False, True)
                          else (True, True, True))
             \<and> (pwm_wrap s1, pwm_level s1) =
                 (if v then (pwm_wrap s, pwm_level s)
                  else if accent s \<and> ticks s = 0 then (1, 3) else (2, 1))"
  proof -
    from tick_invariant [OF nz, of v] obtain s1 where
      s1: "tick s v = Some s1" "ticks s1 < subdiv s1" "subdiv s1 = subdiv s"
      by blast
    have a: "led s1 = (if accent s \<and> ticks s = 0 then (True, False, True)
                          else (True, True, True))"
      using tick_accent(1) [OF s1(1)] .
    have b: "(pwm_wrap s1, pwm_level s1) =
                 (if v then (pwm_wrap s, pwm_level s)
                  else if accent s \<and> ticks s = 0 then (1, 3) else (2, 1))"
      using tick_accent(2,3) [OF s1(1)] by (cases v) (auto split: if_splits)
    show ?thesis using s1 a b assms(3) by auto
  qed
  have cyc: "\<exists>s'. tick_seq s vs = Some s'
              \<and> unat (ticks s') = (unat (ticks s) + length vs) mod 3
              \<and> ticks s' < subdiv s' \<and> subdiv s' = 3 \<and> \<not> paused s'
              \<and> (\<exists>s''. tick s' v = Some s''
                   \<and> led s'' = (if accent s' \<and> ticks s' = 0 then (True, False, True)
                                 else (True, True, True))
                   \<and> (pwm_wrap s'', pwm_level s'') =
                       (if v then (pwm_wrap s', pwm_level s')
                        else if accent s' \<and> ticks s' = 0 then (1, 3) else (2, 1)))"
    if nr: "\<not> recalc_interval s"
  proof -
    from tick_seq_cycle [OF assms(3) lt3 nr, of vs] obtain s' where
      s': "tick_seq s vs = Some s'"
        "unat (ticks s') = (unat (ticks s) + length vs) mod 3"
        "subdiv s' = 3" "\<not> recalc_interval s'" "paused s' = paused s"
      by blast
    have lt': "ticks s' < subdiv s'" using s'(2,3) by (simp add: word_less_nat_alt)
    from tick_no_recalc [OF s'(4), of v] obtain s'' where s'': "tick s' v = Some s''"
      by blast
    have a: "led s'' = (if accent s' \<and> ticks s' = 0 then (True, False, True)
                               else (True, True, True))"
      using tick_accent(1) [OF s''] .
    have b: "(pwm_wrap s'', pwm_level s'') =
                     (if v then (pwm_wrap s', pwm_level s')
                      else if accent s' \<and> ticks s' = 0 then (1, 3) else (2, 1))"
      using tick_accent(2,3) [OF s''] by (cases v) (auto split: if_splits)
    show ?thesis using s' lt' s'' a b assms(2) by auto
  qed
  have ret: "(\<exists>s1. tick s v = Some s1 \<and> ticks s1 = 0 \<and> \<not> recalc_interval s1 \<and> \<not> paused s1)
           \<and> (\<exists>s'. tick_seq s (v # vs) = Some s'
                 \<and> unat (ticks s') = length vs mod 3
                 \<and> ticks s' < subdiv s' \<and> subdiv s' = 3 \<and> \<not> paused s')"
    if r: "recalc_interval s" and t: "tempo s \<noteq> 0"
  proof -
    from tick_retime [OF r t nz, of v] obtain s1 where
      s1: "tick s v = Some s1" "ticks s1 = 0" "\<not> recalc_interval s1" "\<not> paused s1"
        "subdiv s1 = subdiv s"
      by blast
    have d1: "subdiv s1 = 3" using s1(5) assms(3) by simp
    have l1: "ticks s1 < 3" using s1(2) by simp
    from tick_seq_cycle [OF d1 l1 s1(3), of vs] obtain s' where
      s': "tick_seq s1 vs = Some s'"
        "unat (ticks s') = (unat (ticks s1) + length vs) mod 3"
        "subdiv s' = 3" "paused s' = paused s1"
      by blast
    have u: "unat (ticks s') = length vs mod 3" using s'(2) s1(2) by simp
    have lt': "ticks s' < subdiv s'" using u s'(3) by (simp add: word_less_nat_alt)
    have "tick_seq s (v # vs) = Some s'" using s1(1) s'(1) by simp
    then show ?thesis using s1 u lt' s' by auto
  qed
  show ?thesis using lt one cyc ret by blast
qed

text \<open>
  From triplets at tempo 1 with no retime pending, the first four ticks leave the index
  at 1, 2, 0, 1 and show purple, white, white, purple, with the motor pulse of the
  accent on the first and the fourth. With the retime pending, the first tick restarts
  the scheduler and the four ticks after it leave the index at 1 again.
\<close>

theorem tick_index_cycle_subdiv_3_witness:
  "reachable triplets_at_1 \<and> \<not> paused triplets_at_1 \<and> subdiv triplets_at_1 = 3
   \<and> \<not> recalc_interval triplets_at_1 \<and> ticks triplets_at_1 = 0
   \<and> (\<exists>s'. tick_seq triplets_at_1 [False, True, False, False] = Some s'
        \<and> unat (ticks s') = 1 \<and> ticks s' < subdiv s' \<and> subdiv s' = 3 \<and> \<not> paused s'
        \<and> (\<exists>s''. tick s' False = Some s''
              \<and> led s'' = (if accent s' \<and> ticks s' = 0 then (True, False, True)
                            else (True, True, True))
              \<and> (pwm_wrap s'', pwm_level s'') =
                   (if accent s' \<and> ticks s' = 0 then (1, 3) else (2, 1))))
   \<and> map (\<lambda>vs. map_option (\<lambda>s. (ticks s, led s, pwm_wrap s, pwm_level s))
                  (tick_seq triplets_at_1 vs))
        [[False], [False, False], [False, False, False], [False, False, False, False]]
      = [Some (1, (True, False, True), 1, 3), Some (2, (True, True, True), 2, 1),
         Some (0, (True, True, True), 2, 1), Some (1, (True, False, True), 1, 3)]
   \<and> reachable triplets_retime_pending \<and> \<not> paused triplets_retime_pending
   \<and> subdiv triplets_retime_pending = 3 \<and> recalc_interval triplets_retime_pending
   \<and> tempo triplets_retime_pending \<noteq> 0
   \<and> (\<exists>s1. tick triplets_retime_pending False = Some s1 \<and> ticks s1 = 0
         \<and> \<not> recalc_interval s1 \<and> \<not> paused s1)
   \<and> (\<exists>s'. tick_seq triplets_retime_pending [False, False, True, False, False] = Some s'
         \<and> unat (ticks s') = 1 \<and> ticks s' < subdiv s' \<and> subdiv s' = 3 \<and> \<not> paused s')"
proof -
  have steps:
    "map (\<lambda>vs. map_option (\<lambda>s. (ticks s, led s, pwm_wrap s, pwm_level s))
                  (tick_seq triplets_at_1 vs))
        [[False], [False, False], [False, False, False], [False, False, False, False]]
      = [Some (1, (True, False, True), 1, 3), Some (2, (True, True, True), 2, 1),
         Some (0, (True, True, True), 2, 1), Some (1, (True, False, True), 1, 3)]"
    by (simp add: tick_def blink_def rgb_def vibrate_def triplets_at_1_facts Let_def
        word_le_nat_alt)
  have p1: "\<not> paused triplets_at_1" "subdiv triplets_at_1 = 3"
    by (simp_all add: triplets_at_1_facts)
  have cycle:
    "\<exists>s'. tick_seq triplets_at_1 [False, True, False, False] = Some s'
        \<and> unat (ticks s') = 1 \<and> ticks s' < subdiv s' \<and> subdiv s' = 3 \<and> \<not> paused s'
        \<and> (\<exists>s''. tick s' False = Some s''
              \<and> led s'' = (if accent s' \<and> ticks s' = 0 then (True, False, True)
                            else (True, True, True))
              \<and> (pwm_wrap s'', pwm_level s'') =
                   (if accent s' \<and> ticks s' = 0 then (1, 3) else (2, 1)))"
    using tick_index_cycle_subdiv_3
            [OF triplets_at_1_reachable p1, of False "[False, True, False, False]"]
    by (simp add: triplets_at_1_facts)
  have p2: "\<not> paused triplets_retime_pending" "subdiv triplets_retime_pending = 3"
    by (simp_all add: triplets_retime_pending_facts)
  have retime:
    "(\<exists>s1. tick triplets_retime_pending False = Some s1 \<and> ticks s1 = 0
         \<and> \<not> recalc_interval s1 \<and> \<not> paused s1)
     \<and> (\<exists>s'. tick_seq triplets_retime_pending [False, False, True, False, False] = Some s'
         \<and> unat (ticks s') = 1 \<and> ticks s' < subdiv s' \<and> subdiv s' = 3 \<and> \<not> paused s')"
    using tick_index_cycle_subdiv_3
            [OF triplets_retime_pending_reachable p2, of False "[False, True, False, False]"]
    by (simp add: triplets_retime_pending_facts)
  show ?thesis
    using triplets_at_1_reachable triplets_retime_pending_reachable cycle retime steps
    by (simp add: triplets_at_1_facts triplets_retime_pending_facts)
qed

end
